theory Spec2Isabelle
  imports Main "HOL-Library.Product_Lexorder"
begin

section \<open>The group allocator of tools/assign\_nouveau\_groupe.py\<close>

text \<open>
  The script fills the column NOUVEAU GROUPE of a table of students: every student is
  given one of the destination groups 1..23, under capacity and eligibility constraints,
  by a greedy pass over the rows. This theory embeds the class \<open>GroupAllocator\<close> and the
  allocation loop of \<open>main\<close>, and proves the properties the specification states of them.

  Python's \<open>int\<close> is unbounded and is modelled by \<open>int\<close>; a \<open>str\<close> is only ever
  compared for equality or used as a dictionary key, and is modelled by \<open>string\<close>.
\<close>

subsection \<open>Exceptions\<close>

text \<open>
  The two ways the code under study can stop: a lookup of an absent key in the plain
  dictionary \<open>capacities\<close> raises \<open>KeyError\<close>, and \<open>main\<close> calls \<open>sys.exit(1)\<close> when the
  validator rejects an allocation.
\<close>

datatype error = KeyError int | SystemExit int

subsection \<open>Dictionaries with a default\<close>

text \<open>
  \<open>collections.defaultdict\<close>: reading an absent key stores the default under that key and
  returns it. A read is therefore a state change, and it returns the dictionary as well.
\<close>

definition dd_get :: "'v \<Rightarrow> ('k \<rightharpoonup> 'v) \<Rightarrow> 'k \<Rightarrow> 'v \<times> ('k \<rightharpoonup> 'v)" where
  "dd_get dflt d k = (case d k of Some v \<Rightarrow> (v, d) | None \<Rightarrow> (dflt, d(k \<mapsto> dflt)))"

text \<open>
  \<open>d[g][l]\<close> on a \<open>defaultdict(lambda: defaultdict(int))\<close>: the inner dictionary is created
  when \<open>g\<close> is absent, the entry \<open>l\<close> of the inner dictionary when \<open>l\<close> is. The inner
  dictionary is an object that the outer one refers to, so the outer one sees its change.
\<close>

definition dd_get2 :: "('g \<rightharpoonup> ('l \<rightharpoonup> int)) \<Rightarrow> 'g \<Rightarrow> 'l \<Rightarrow> int \<times> ('g \<rightharpoonup> ('l \<rightharpoonup> int))" where
  "dd_get2 d g l =
     (let (inner, d1) = dd_get Map.empty d g;
          (v, inner1) = dd_get 0 inner l
      in (v, d1(g \<mapsto> inner1)))"

text \<open>\<open>d[g] += 1\<close> and \<open>d[g][l] += 1\<close>: a read as above, then a store.\<close>

definition dd_incr :: "('k \<rightharpoonup> int) \<Rightarrow> 'k \<Rightarrow> ('k \<rightharpoonup> int)" where
  "dd_incr d k = (let (v, d1) = dd_get 0 d k in d1(k \<mapsto> v + 1))"

definition dd_incr2 :: "('g \<rightharpoonup> ('l \<rightharpoonup> int)) \<Rightarrow> 'g \<Rightarrow> 'l \<Rightarrow> ('g \<rightharpoonup> ('l \<rightharpoonup> int))" where
  "dd_incr2 d g l =
     (let (inner, d1) = dd_get Map.empty d g
      in d1(g \<mapsto> dd_incr inner l))"

subsection \<open>The allocator: constants and state\<close>

text \<open>
  \<open>GroupAllocator.__init__\<close> fills \<open>capacities\<close> in two loops and one assignment; Python's
  \<open>range(1, 5)\<close> is \<open>[1..4]\<close> and \<open>range(5, 23)\<close> is \<open>[5..22]\<close>. The attributes
  \<open>capacities\<close>, \<open>p1_groups\<close>, \<open>p2_groups\<close> and \<open>stage_forbidden\<close> are never assigned again
  (\<open>get_allowed_groups\<close> works on a copy), so they are constants here.
\<close>

definition capacities :: "int \<rightharpoonup> int" where
  "capacities =
     (let c1 = fold (\<lambda>g c. c(g \<mapsto> 8)) [1..4] Map.empty;
          c2 = fold (\<lambda>g c. c(g \<mapsto> 7)) [5..22] c1
      in c2(23 \<mapsto> 6))"

definition p1_groups :: "int set" where
  "p1_groups = {1, 2, 3, 4, 17, 18, 19, 20, 21, 22, 23}"

definition p2_groups :: "int set" where
  "p2_groups = {1, 2, 3, 4, 5, 6, 7, 8, 9, 10, 11, 12, 13, 14, 15, 16}"

definition stage_forbidden :: "int set" where
  "stage_forbidden = {1, 2, 3, 4}"

text \<open>The three dictionaries that record the allocations made so far.\<close>

record allocator =
  group_counts :: "int \<rightharpoonup> int"
  group_source_groupes :: "int \<rightharpoonup> (string \<rightharpoonup> int)"
  group_metiers :: "int \<rightharpoonup> (string \<rightharpoonup> int)"

text \<open>The state of a new \<open>GroupAllocator()\<close>: nothing recorded.\<close>

definition GroupAllocator :: allocator where
  "GroupAllocator =
     \<lparr>group_counts = Map.empty, group_source_groupes = Map.empty, group_metiers = Map.empty\<rparr>"

text \<open>The reads \<open>self.group_counts[g]\<close>, \<open>self.group_source_groupes[g][l]\<close> and
  \<open>self.group_metiers[g][l]\<close>, with the allocator they leave behind.\<close>

definition read_count :: "int \<Rightarrow> allocator \<Rightarrow> int \<times> allocator" where
  "read_count g s =
     (let (v, d) = dd_get 0 (group_counts s) g in (v, s\<lparr>group_counts := d\<rparr>))"

definition read_source_groupe :: "int \<Rightarrow> string \<Rightarrow> allocator \<Rightarrow> int \<times> allocator" where
  "read_source_groupe g l s =
     (let (v, d) = dd_get2 (group_source_groupes s) g l in (v, s\<lparr>group_source_groupes := d\<rparr>))"

definition read_metier :: "int \<Rightarrow> string \<Rightarrow> allocator \<Rightarrow> int \<times> allocator" where
  "read_metier g l s =
     (let (v, d) = dd_get2 (group_metiers s) g l in (v, s\<lparr>group_metiers := d\<rparr>))"

text \<open>
  What such a read returns, as a function of the state alone: the occupancy of a group and
  the two histograms of a group. These are the quantities the properties speak about.
\<close>

definition occupancy :: "allocator \<Rightarrow> int \<Rightarrow> int" where
  "occupancy s g = fst (read_count g s)"

definition source_groupe_count :: "allocator \<Rightarrow> int \<Rightarrow> string \<Rightarrow> int" where
  "source_groupe_count s g l = fst (read_source_groupe g l s)"

definition metier_count :: "allocator \<Rightarrow> int \<Rightarrow> string \<Rightarrow> int" where
  "metier_count s g l = fst (read_metier g l s)"

subsection \<open>get\_allowed\_groups\<close>

text \<open>
  The comprehension \<open>[g for g in allowed if self.group_counts[g] < self.capacities[g]]\<close>
  over the groups in the order \<open>gs\<close>. The left operand is read first (and may store a
  default), then \<open>capacities[g]\<close>, which raises \<open>KeyError\<close> on an absent key.
\<close>

fun keep_available :: "int list \<Rightarrow> allocator \<Rightarrow> error + (int list \<times> allocator)" where
  "keep_available [] s = Inr ([], s)"
| "keep_available (g # gs) s =
     (let (c, s1) = read_count g s in
      case capacities g of
        None \<Rightarrow> Inl (KeyError g)
      | Some cap \<Rightarrow>
          (case keep_available gs s1 of
             Inl e \<Rightarrow> Inl e
           | Inr (kept, s2) \<Rightarrow> Inr (if c < cap then g # kept else kept, s2)))"

text \<open>
  \<open>allowed\<close> is a Python set, and the language does not fix the order in which the
  comprehension visits it. The order is a parameter \<open>it\<close> of the model: \<open>it A\<close> is the
  order in which the set \<open>A\<close> is visited. \<open>set_order it\<close> says that \<open>it\<close> visits every
  element of a finite set exactly once.
\<close>

definition set_order :: "(int set \<Rightarrow> int list) \<Rightarrow> bool" where
  "set_order it \<longleftrightarrow> (\<forall>A. finite A \<longrightarrow> set (it A) = A \<and> distinct (it A))"

definition get_allowed_groups ::
  "(int set \<Rightarrow> int list) \<Rightarrow> string \<Rightarrow> bool \<Rightarrow> allocator \<Rightarrow> error + (int list \<times> allocator)" where
  "get_allowed_groups it periode stage_oui s =
     (case (if periode = ''P1'' then Some p1_groups
            else if periode = ''P2'' then Some p2_groups
            else None) of
        None \<Rightarrow> Inr ([], s)
      | Some allowed0 \<Rightarrow>
          (let allowed = (if stage_oui then allowed0 - stage_forbidden else allowed0) in
           case keep_available (it allowed) s of
             Inl e \<Rightarrow> Inl e
           | Inr (kept, s1) \<Rightarrow> Inr (sort kept, s1)))"

subsection \<open>score\_group and allocate\_student\<close>

text \<open>
  The score is a Python tuple of four integers; tuples compare lexicographically, which
  is the order of \<open>HOL-Library.Product_Lexorder\<close> on nested pairs.
\<close>

type_synonym score = "int \<times> int \<times> int \<times> int"

definition score_group :: "int \<Rightarrow> string \<Rightarrow> string \<Rightarrow> allocator \<Rightarrow> score \<times> allocator" where
  "score_group grp source_groupe metier s =
     (let (c, s1) = read_count grp s;
          (sg, s2) = read_source_groupe grp source_groupe s1;
          (m, s3) = read_metier grp metier s2
      in ((c, sg, m, grp), s3))"

text \<open>
  \<open>min(xs, key=f)\<close> on a non-empty list: the key of every element is computed once, in
  order, and an element replaces the best one so far only when its key is strictly less.
  \<open>min_loop\<close> is the loop over the elements after the first.
\<close>

fun min_loop ::
  "(int \<Rightarrow> allocator \<Rightarrow> score \<times> allocator) \<Rightarrow> int list \<Rightarrow> int \<Rightarrow> score \<Rightarrow> allocator \<Rightarrow> int \<times> allocator" where
  "min_loop key [] best best_key s = (best, s)"
| "min_loop key (x # xs) best best_key s =
     (let (k, s1) = key x s in
      if k < best_key then min_loop key xs x k s1 else min_loop key xs best best_key s1)"

definition record_allocation :: "int \<Rightarrow> string \<Rightarrow> string \<Rightarrow> allocator \<Rightarrow> allocator" where
  "record_allocation best_group source_groupe metier s =
     (let s1 = s\<lparr>group_counts := dd_incr (group_counts s) best_group\<rparr>;
          s2 = s1\<lparr>group_source_groupes := dd_incr2 (group_source_groupes s1) best_group source_groupe\<rparr>
      in s2\<lparr>group_metiers := dd_incr2 (group_metiers s2) best_group metier\<rparr>)"

definition allocate_student ::
  "(int set \<Rightarrow> int list) \<Rightarrow> string \<Rightarrow> bool \<Rightarrow> string \<Rightarrow> string \<Rightarrow> allocator
     \<Rightarrow> error + (int option \<times> allocator)" where
  "allocate_student it periode stage_oui source_groupe metier s =
     (case get_allowed_groups it periode stage_oui s of
        Inl e \<Rightarrow> Inl e
      | Inr (allowed_groups, s1) \<Rightarrow>
          (case allowed_groups of
             [] \<Rightarrow> Inr (None, s1)
           | g # gs \<Rightarrow>
               (let (k, s2) = score_group g source_groupe metier s1;
                    (best_group, s3) =
                       min_loop (\<lambda>g. score_group g source_groupe metier) gs g k s2
                in Inr (Some best_group, record_allocation best_group source_groupe metier s3))))"

subsection \<open>validate\_allocation\<close>

definition validate_allocation ::
  "int \<Rightarrow> string \<Rightarrow> bool \<Rightarrow> allocator \<Rightarrow> error + (bool \<times> allocator)" where
  "validate_allocation grp periode stage_oui s =
     (let (c, s1) = read_count grp s in
      case capacities grp of
        None \<Rightarrow> Inl (KeyError grp)
      | Some cap \<Rightarrow>
          if c > cap then Inr (False, s1)
          else if periode = ''P1'' \<and> grp \<notin> p1_groups then Inr (False, s1)
          else if periode = ''P2'' \<and> grp \<notin> p2_groups then Inr (False, s1)
          else if stage_oui \<and> grp \<in> stage_forbidden then Inr (False, s1)
          else Inr (True, s1))"

subsection \<open>The allocation loop of main\<close>

text \<open>\<open>str(n)\<close> of an integer: its decimal digits, with a minus sign when negative.\<close>

function str_nat :: "nat \<Rightarrow> string" where
  "str_nat n = (if n < 10 then [''0123456789'' ! n] else str_nat (n div 10) @ [''0123456789'' ! (n mod 10)])"
  by pat_completeness auto
termination
  by (relation "measure id") auto

definition str :: "int \<Rightarrow> string" where
  "str n = (if n < 0 then CHR ''-'' # str_nat (nat (- n)) else str_nat (nat n))"

text \<open>A row of the table, as \<open>read_data_source\<close> builds it: a dictionary with seven keys.\<close>

record row =
  line_num :: string
  metier :: string
  choix_master :: string
  groupe :: string
  stage :: string
  periode :: string
  nouveau_groupe :: string

text \<open>The body of the loop \<open>for row in rows\<close>, and the loop.\<close>

definition allocate_row ::
  "(int set \<Rightarrow> int list) \<Rightarrow> row \<Rightarrow> allocator \<Rightarrow> error + (row \<times> allocator)" where
  "allocate_row it r s =
     (let stage_oui = (stage r = ''oui'') in
      case allocate_student it (periode r) stage_oui (groupe r) (metier r) s of
        Inl e \<Rightarrow> Inl e
      | Inr (None, s1) \<Rightarrow> Inr (r\<lparr>nouveau_groupe := ''''\<rparr>, s1)
      | Inr (Some grp, s1) \<Rightarrow>
          (case validate_allocation grp (periode r) stage_oui s1 of
             Inl e \<Rightarrow> Inl e
           | Inr (valid, s2) \<Rightarrow>
               if \<not> valid then Inl (SystemExit 1)
               else Inr (r\<lparr>nouveau_groupe := str grp\<rparr>, s2)))"

fun allocate_rows ::
  "(int set \<Rightarrow> int list) \<Rightarrow> row list \<Rightarrow> allocator \<Rightarrow> error + (row list \<times> allocator)" where
  "allocate_rows it [] s = Inr ([], s)"
| "allocate_rows it (r # rs) s =
     (case allocate_row it r s of
        Inl e \<Rightarrow> Inl e
      | Inr (r', s1) \<Rightarrow>
          (case allocate_rows it rs s1 of
             Inl e \<Rightarrow> Inl e
           | Inr (rs', s2) \<Rightarrow> Inr (r' # rs', s2)))"

text \<open>A sequence of calls of \<open>allocate_student\<close> on one allocator, with what they return.\<close>

type_synonym student = "string \<times> bool \<times> string \<times> string"

fun allocate_students ::
  "(int set \<Rightarrow> int list) \<Rightarrow> student list \<Rightarrow> allocator \<Rightarrow> error + (int option list \<times> allocator)" where
  "allocate_students it [] s = Inr ([], s)"
| "allocate_students it ((p, st, sg, m) # xs) s =
     (case allocate_student it p st sg m s of
        Inl e \<Rightarrow> Inl e
      | Inr (res, s1) \<Rightarrow>
          (case allocate_students it xs s1 of
             Inl e \<Rightarrow> Inl e
           | Inr (ress, s2) \<Rightarrow> Inr (res # ress, s2)))"

section \<open>Properties\<close>

subsection \<open>Quantities the properties are stated with\<close>

text \<open>What reads of the keys in \<open>A\<close> leave of a \<open>defaultdict(int)\<close>: the absent ones now hold 0.\<close>

definition touch :: "'k set \<Rightarrow> ('k \<rightharpoonup> int) \<Rightarrow> ('k \<rightharpoonup> int)" where
  "touch A d = (\<lambda>k. if k \<in> A \<and> d k = None then Some 0 else d k)"

text \<open>Two allocators in which every read returns the same value (their dictionaries may differ
  in the keys that hold a default).\<close>

definition same_reads :: "allocator \<Rightarrow> allocator \<Rightarrow> bool" where
  "same_reads s s' \<longleftrightarrow>
     occupancy s' = occupancy s \<and> source_groupe_count s' = source_groupe_count s \<and>
     metier_count s' = metier_count s"

text \<open>The value that \<open>d[g][l]\<close> returns.\<close>

definition hist :: "('g \<rightharpoonup> ('l \<rightharpoonup> int)) \<Rightarrow> 'g \<Rightarrow> 'l \<Rightarrow> int" where
  "hist d g l =
     (case d g of None \<Rightarrow> 0 | Some inner \<Rightarrow> (case inner l of None \<Rightarrow> 0 | Some c \<Rightarrow> c))"

text \<open>The score of a group, as a function of the state alone.\<close>

definition score_of :: "allocator \<Rightarrow> string \<Rightarrow> string \<Rightarrow> int \<Rightarrow> score" where
  "score_of s sg m g = fst (score_group g sg m s)"

text \<open>
  The eligibility set of a student: the set \<open>allowed\<close> of \<open>get_allowed_groups\<close> before the
  capacity filter (empty for a period other than P1 and P2). A group of it is available when
  its occupancy is below its capacity.
\<close>

definition eligible :: "string \<Rightarrow> bool \<Rightarrow> int set" where
  "eligible p st =
     (if p = ''P1'' then p1_groups else if p = ''P2'' then p2_groups else {})
       - (if st then stage_forbidden else {})"

definition available :: "allocator \<Rightarrow> string \<Rightarrow> bool \<Rightarrow> int set" where
  "available s p st =
     {g \<in> eligible p st. case capacities g of None \<Rightarrow> False | Some cap \<Rightarrow> occupancy s g < cap}"

text \<open>The capacity invariant: no group of the capacity table holds more than its capacity.\<close>

definition within_capacity :: "allocator \<Rightarrow> bool" where
  "within_capacity s \<longleftrightarrow> (\<forall>g cap. capacities g = Some cap \<longrightarrow> occupancy s g \<le> cap)"

text \<open>
  The strict lexicographic order on scores, written out criterion by criterion: occupancy,
  then source-group count, then profession count, then group number.
\<close>

definition lex_less :: "score \<Rightarrow> score \<Rightarrow> bool" where
  "lex_less a b =
     (case a of (c1, g1, m1, i1) \<Rightarrow> case b of (c2, g2, m2, i2) \<Rightarrow>
        c1 < c2 \<or> (c1 = c2 \<and> (g1 < g2 \<or> (g1 = g2 \<and> (m1 < m2 \<or> (m1 = m2 \<and> i1 < i2))))))"

subsection \<open>Reads, the capacity filter and the minimum\<close>

lemma fold_upd: "fold (\<lambda>g c. c(g \<mapsto> v)) xs c k = (if k \<in> set xs then Some v else c k)"
  by (induction xs arbitrary: c) auto

lemma capacities_eq:
  "capacities g =
     (if 1 \<le> g \<and> g \<le> 4 then Some 8
      else if 5 \<le> g \<and> g \<le> 22 then Some 7
      else if g = 23 then Some 6 else None)"
  unfolding capacities_def Let_def fun_upd_apply fold_upd set_upto by auto

lemma occupancy_eq: "occupancy s g = (case group_counts s g of None \<Rightarrow> 0 | Some c \<Rightarrow> c)"
  by (simp add: occupancy_def read_count_def dd_get_def split: option.splits)

lemma source_groupe_count_eq:
  "source_groupe_count s g l =
     (case group_source_groupes s g of None \<Rightarrow> 0
      | Some inner \<Rightarrow> (case inner l of None \<Rightarrow> 0 | Some c \<Rightarrow> c))"
  by (simp add: source_groupe_count_def read_source_groupe_def dd_get2_def dd_get_def split: option.splits)

lemma metier_count_eq:
  "metier_count s g l =
     (case group_metiers s g of None \<Rightarrow> 0
      | Some inner \<Rightarrow> (case inner l of None \<Rightarrow> 0 | Some c \<Rightarrow> c))"
  by (simp add: metier_count_def read_metier_def dd_get2_def dd_get_def split: option.splits)

lemma same_reads_refl: "same_reads s s"
  by (simp add: same_reads_def)

lemma same_reads_trans: "same_reads s s1 \<Longrightarrow> same_reads s1 s2 \<Longrightarrow> same_reads s s2"
  by (simp add: same_reads_def)

lemma touch_empty: "touch {} d = d"
  by (simp add: touch_def)

lemma touch_insert: "touch A (touch {k} d) = touch (insert k A) d"
  by (auto simp: touch_def fun_eq_iff)

lemma touch_present: "\<forall>k\<in>A. d k \<noteq> None \<Longrightarrow> touch A d = d"
  by (auto simp: touch_def fun_eq_iff)

lemma read_count_eq:
  "read_count g s = (occupancy s g, s\<lparr>group_counts := touch {g} (group_counts s)\<rparr>)"
  by (auto simp: read_count_def occupancy_eq dd_get_def touch_def fun_eq_iff split: option.splits)

lemma occupancy_touch: "occupancy (s\<lparr>group_counts := touch A (group_counts s)\<rparr>) = occupancy s"
  by (auto simp: occupancy_eq touch_def fun_eq_iff split: option.splits)

lemma same_reads_touch: "same_reads s (s\<lparr>group_counts := touch A (group_counts s)\<rparr>)"
  by (simp add: same_reads_def occupancy_touch)
     (simp add: fun_eq_iff source_groupe_count_eq metier_count_eq)

lemma dd_get2_fst: "fst (dd_get2 d g l) = hist d g l"
  by (simp add: dd_get2_def dd_get_def hist_def split: option.splits)

lemma dd_get2_snd: "hist (snd (dd_get2 d g l)) g' l' = hist d g' l'"
  by (simp add: dd_get2_def dd_get_def hist_def split: option.splits)

lemma source_groupe_count_hist: "source_groupe_count s g l = hist (group_source_groupes s) g l"
  by (simp add: source_groupe_count_eq hist_def)

lemma metier_count_hist: "metier_count s g l = hist (group_metiers s) g l"
  by (simp add: metier_count_eq hist_def)

lemma read_source_groupe_reads:
  "\<exists>s'. read_source_groupe g l s = (source_groupe_count s g l, s') \<and> same_reads s s'"
proof -
  let ?s' = "snd (read_source_groupe g l s)"
  have f: "group_counts ?s' = group_counts s" "group_metiers ?s' = group_metiers s"
    "group_source_groupes ?s' = snd (dd_get2 (group_source_groupes s) g l)"
    by (simp_all add: read_source_groupe_def split_def Let_def)
  have "same_reads s ?s'"
    by (simp add: same_reads_def fun_eq_iff occupancy_eq source_groupe_count_hist
        metier_count_hist f dd_get2_snd)
  moreover have "fst (read_source_groupe g l s) = source_groupe_count s g l"
    by (simp add: source_groupe_count_def)
  ultimately show ?thesis by (metis prod.collapse)
qed

lemma read_metier_reads:
  "\<exists>s'. read_metier g l s = (metier_count s g l, s') \<and> same_reads s s'"
proof -
  let ?s' = "snd (read_metier g l s)"
  have f: "group_counts ?s' = group_counts s" "group_source_groupes ?s' = group_source_groupes s"
    "group_metiers ?s' = snd (dd_get2 (group_metiers s) g l)"
    by (simp_all add: read_metier_def split_def Let_def)
  have "same_reads s ?s'"
    by (simp add: same_reads_def fun_eq_iff occupancy_eq source_groupe_count_hist
        metier_count_hist f dd_get2_snd)
  moreover have "fst (read_metier g l s) = metier_count s g l"
    by (simp add: metier_count_def)
  ultimately show ?thesis by (metis prod.collapse)
qed

lemma score_group_reads:
  "\<exists>s'. score_group g sg m s =
     ((occupancy s g, source_groupe_count s g sg, metier_count s g m, g), s') \<and> same_reads s s'"
proof -
  let ?s1 = "s\<lparr>group_counts := touch {g} (group_counts s)\<rparr>"
  have r1: "same_reads s ?s1" by (rule same_reads_touch)
  obtain s2 where s2: "read_source_groupe g sg ?s1 = (source_groupe_count ?s1 g sg, s2)"
    and r2: "same_reads ?s1 s2"
    using read_source_groupe_reads by blast
  obtain s3 where s3: "read_metier g m s2 = (metier_count s2 g m, s3)"
    and r3: "same_reads s2 s3"
    using read_metier_reads by blast
  have e: "score_group g sg m s =
     ((occupancy s g, source_groupe_count ?s1 g sg, metier_count s2 g m, g), s3)"
    by (simp add: score_group_def read_count_eq s2 s3)
  have c: "source_groupe_count ?s1 = source_groupe_count s" "metier_count s2 = metier_count s"
    using r1 r2 by (simp_all add: same_reads_def)
  have "same_reads s s3"
    using same_reads_trans[OF same_reads_trans[OF r1 r2] r3] .
  with e c show ?thesis by simp
qed

lemma score_of_eq:
  "score_of s sg m g = (occupancy s g, source_groupe_count s g sg, metier_count s g m, g)"
  using score_group_reads[of g sg m s] by (auto simp: score_of_def)

lemma score_of_same_reads: "same_reads s s' \<Longrightarrow> score_of s' sg m = score_of s sg m"
  by (simp add: fun_eq_iff score_of_eq same_reads_def)

lemma score_group_of:
  "\<exists>s'. score_group g sg m s = (score_of s sg m g, s') \<and> same_reads s s'"
  using score_group_reads[of g sg m s] by (simp add: score_of_eq)

lemma keep_available_eq:
  "set gs \<subseteq> dom capacities \<Longrightarrow>
   keep_available gs s =
     Inr (filter (\<lambda>g. occupancy s g < the (capacities g)) gs,
          s\<lparr>group_counts := touch (set gs) (group_counts s)\<rparr>)"
proof (induction gs arbitrary: s)
  case Nil
  then show ?case by (simp add: touch_empty)
next
  case (Cons g gs)
  let ?s1 = "s\<lparr>group_counts := touch {g} (group_counts s)\<rparr>"
  from Cons.prems obtain cap where cap: "capacities g = Some cap" by auto
  from Cons.prems have sub: "set gs \<subseteq> dom capacities" by simp
  have occ: "occupancy ?s1 = occupancy s" by (rule occupancy_touch)
  have gc: "group_counts ?s1 = touch {g} (group_counts s)" by simp
  show ?case
    by (simp add: read_count_eq cap Cons.IH[OF sub] occ touch_insert del: fun_upd_apply)
qed

lemma min_loop_least:
  assumes "same_reads s0 s" and "best_key = score_of s0 sg m best"
  shows "\<exists>b s'. min_loop (\<lambda>g. score_group g sg m) xs best best_key s = (b, s') \<and>
           same_reads s0 s' \<and> b \<in> set (best # xs) \<and>
           (\<forall>x\<in>set (best # xs). score_of s0 sg m b \<le> score_of s0 sg m x)"
  using assms
proof (induction xs arbitrary: best best_key s)
  case Nil
  then show ?case by simp
next
  case (Cons x xs)
  obtain s1 where sc: "score_group x sg m s = (score_of s sg m x, s1)" and r: "same_reads s s1"
    using score_group_of by blast
  have k: "score_of s sg m x = score_of s0 sg m x"
    using score_of_same_reads[OF Cons.prems(1)] by simp
  have r1: "same_reads s0 s1" using same_reads_trans[OF Cons.prems(1) r] .
  show ?case
  proof (cases "score_of s0 sg m x < best_key")
    case True
    from Cons.IH[OF r1 refl, of x] obtain b s' where
      ml: "min_loop (\<lambda>g. score_group g sg m) xs x (score_of s0 sg m x) s1 = (b, s')"
      and rs: "same_reads s0 s'" and mem: "b \<in> set (x # xs)"
      and le: "\<forall>y\<in>set (x # xs). score_of s0 sg m b \<le> score_of s0 sg m y"
      by blast
    from le have "score_of s0 sg m b \<le> score_of s0 sg m x" by simp
    with True Cons.prems(2) have "score_of s0 sg m b \<le> score_of s0 sg m best" by simp
    with le have "\<forall>y\<in>set (best # x # xs). score_of s0 sg m b \<le> score_of s0 sg m y" by simp
    moreover have "min_loop (\<lambda>g. score_group g sg m) (x # xs) best best_key s = (b, s')"
      using True ml by (simp add: sc k)
    ultimately show ?thesis using rs mem by auto
  next
    case False
    from Cons.IH[OF r1 Cons.prems(2)] obtain b s' where
      ml: "min_loop (\<lambda>g. score_group g sg m) xs best best_key s1 = (b, s')"
      and rs: "same_reads s0 s'" and mem: "b \<in> set (best # xs)"
      and le: "\<forall>y\<in>set (best # xs). score_of s0 sg m b \<le> score_of s0 sg m y"
      by blast
    from le have "score_of s0 sg m b \<le> score_of s0 sg m best" by simp
    with False Cons.prems(2) have "score_of s0 sg m b \<le> score_of s0 sg m x" by simp
    with le have "\<forall>y\<in>set (best # x # xs). score_of s0 sg m b \<le> score_of s0 sg m y" by simp
    moreover have "min_loop (\<lambda>g. score_group g sg m) (x # xs) best best_key s = (b, s')"
      using False ml by (simp add: sc k)
    ultimately show ?thesis using rs mem by auto
  qed
qed

lemma dd_incr_apply: "dd_incr d k k' = (if k' = k then Some ((case d k of None \<Rightarrow> 0 | Some c \<Rightarrow> c) + 1) else d k')"
  by (simp add: dd_incr_def dd_get_def split: option.splits)

lemma hist_dd_incr2:
  "hist (dd_incr2 d g l) g' l' = (if g' = g \<and> l' = l then hist d g l + 1 else hist d g' l')"
  by (simp add: dd_incr2_def dd_get_def hist_def dd_incr_apply split: option.splits)

lemma record_allocation_occupancy:
  "occupancy (record_allocation b sg m s) g = (if g = b then occupancy s b + 1 else occupancy s g)"
  by (simp add: record_allocation_def Let_def occupancy_eq dd_incr_apply)

lemma record_allocation_source_groupe:
  "source_groupe_count (record_allocation b sg m s) g l =
     (if g = b \<and> l = sg then source_groupe_count s b sg + 1 else source_groupe_count s g l)"
  by (simp add: record_allocation_def Let_def source_groupe_count_hist hist_dd_incr2)

lemma record_allocation_metier:
  "metier_count (record_allocation b sg m s) g l =
     (if g = b \<and> l = m then metier_count s b m + 1 else metier_count s g l)"
  by (simp add: record_allocation_def Let_def metier_count_hist hist_dd_incr2)

lemma eligible_range: "g \<in> eligible p st \<Longrightarrow> 1 \<le> g \<and> g \<le> 23"
  by (auto simp: eligible_def p1_groups_def p2_groups_def split: if_splits)

lemma finite_eligible: "finite (eligible p st)"
  by (simp add: eligible_def p1_groups_def p2_groups_def)

lemma capacities_dom: "1 \<le> g \<Longrightarrow> g \<le> 23 \<Longrightarrow> \<exists>cap. capacities g = Some cap \<and> 6 \<le> cap"
  by (simp add: capacities_eq)

lemma eligible_dom: "eligible p st \<subseteq> dom capacities"
  using eligible_range capacities_dom by (meson domI subsetI)

lemma finite_available: "finite (available s p st)"
  using finite_eligible by (simp add: available_def)

lemma available_filter:
  "set xs = eligible p st \<Longrightarrow>
   set (filter (\<lambda>g. occupancy s g < the (capacities g)) xs) = available s p st"
  using eligible_dom[of p st] by (auto simp: available_def split: option.splits)

lemma sort_distinct: "distinct xs \<Longrightarrow> sort xs = sorted_list_of_set (set xs)"
  by (simp add: sorted_list_of_set_sort_remdups distinct_remdups_id)

lemma set_order_sorted: "set_order sorted_list_of_set"
  by (simp add: set_order_def)

lemma get_allowed_groups_eq:
  assumes "set_order it"
  shows "get_allowed_groups it p st s =
     Inr (sorted_list_of_set (available s p st),
          s\<lparr>group_counts := touch (eligible p st) (group_counts s)\<rparr>)"
proof (cases "p = ''P1'' \<or> p = ''P2''")
  case False
  then show ?thesis
    by (simp add: get_allowed_groups_def available_def eligible_def touch_empty)
next
  case True
  let ?A = "eligible p st"
  have it: "set (it ?A) = ?A" "distinct (it ?A)"
    using assms finite_eligible by (simp_all add: set_order_def)
  have dom: "set (it ?A) \<subseteq> dom capacities" using it eligible_dom by simp
  have A: "(if st then (if p = ''P1'' then p1_groups else p2_groups) - stage_forbidden
            else (if p = ''P1'' then p1_groups else p2_groups)) = ?A"
    using True by (auto simp: eligible_def)
  have "get_allowed_groups it p st s =
      (case keep_available (it ?A) s of Inl e \<Rightarrow> Inl e | Inr (kept, s1) \<Rightarrow> Inr (sort kept, s1))"
    using True A by (auto simp: get_allowed_groups_def Let_def)
  also have "\<dots> = Inr (sort (filter (\<lambda>g. occupancy s g < the (capacities g)) (it ?A)),
          s\<lparr>group_counts := touch ?A (group_counts s)\<rparr>)"
    by (simp add: keep_available_eq[OF dom] it)
  also have "sort (filter (\<lambda>g. occupancy s g < the (capacities g)) (it ?A))
      = sorted_list_of_set (available s p st)"
    using it available_filter[of "it ?A" p st s] by (simp add: sort_distinct)
  finally show ?thesis .
qed

lemma touch_full:
  assumes "available s p st = {}"
  shows "touch (eligible p st) (group_counts s) = group_counts s"
proof (rule touch_present, rule ballI)
  fix g assume g: "g \<in> eligible p st"
  then obtain cap where cap: "capacities g = Some cap" "6 \<le> cap"
    using eligible_range capacities_dom by blast
  from assms g cap have "\<not> occupancy s g < cap" by (auto simp: available_def)
  with cap have "occupancy s g \<noteq> 0" by simp
  then show "group_counts s g \<noteq> None" by (auto simp: occupancy_eq split: option.splits)
qed

lemma allocate_student_none:
  assumes "set_order it" and "available s p st = {}"
  shows "allocate_student it p st sg m s = Inr (None, s)"
  by (simp add: allocate_student_def get_allowed_groups_eq[OF assms(1)] assms(2)
      touch_full[OF assms(2)])

lemma allocate_student_some:
  assumes "set_order it" and "available s p st \<noteq> {}"
  shows "\<exists>b s1. allocate_student it p st sg m s = Inr (Some b, record_allocation b sg m s1) \<and>
           same_reads s s1 \<and> b \<in> available s p st \<and>
           (\<forall>x\<in>available s p st. score_of s sg m b \<le> score_of s sg m x)"
proof -
  let ?s1 = "s\<lparr>group_counts := touch (eligible p st) (group_counts s)\<rparr>"
  have r1: "same_reads s ?s1" by (rule same_reads_touch)
  have ne: "sorted_list_of_set (available s p st) \<noteq> []"
    using assms(2) finite_available by simp
  then obtain g gs where gs: "sorted_list_of_set (available s p st) = g # gs"
    by (cases "sorted_list_of_set (available s p st)") auto
  have set: "set (g # gs) = available s p st"
    using finite_available[of s p st] gs by (metis set_sorted_list_of_set)
  obtain s2 where sc: "score_group g sg m ?s1 = (score_of ?s1 sg m g, s2)"
    and r2: "same_reads ?s1 s2"
    using score_group_of by blast
  have k: "score_of ?s1 sg m g = score_of s sg m g"
    using score_of_same_reads[OF r1] by simp
  have r02: "same_reads s s2" using same_reads_trans[OF r1 r2] .
  from min_loop_least[OF r02 refl, of sg m gs g] obtain b s3 where
    ml: "min_loop (\<lambda>g. score_group g sg m) gs g (score_of s sg m g) s2 = (b, s3)"
    and r3: "same_reads s s3" and mem: "b \<in> set (g # gs)"
    and le: "\<forall>x\<in>set (g # gs). score_of s sg m b \<le> score_of s sg m x"
    by blast
  have "allocate_student it p st sg m s = Inr (Some b, record_allocation b sg m s3)"
    by (simp add: allocate_student_def get_allowed_groups_eq[OF assms(1)] gs sc k ml)
  with r3 mem le set show ?thesis by blast
qed

subsection \<open>What a call of allocate\_student does\<close>

lemma available_iff:
  "g \<in> available s p st \<longleftrightarrow>
     g \<in> eligible p st \<and> (\<exists>cap. capacities g = Some cap \<and> occupancy s g < cap)"
  by (auto simp: available_def split: option.splits)

lemma allocate_student_total:
  assumes "set_order it"
  shows "\<exists>r s'. allocate_student it p st sg m s = Inr (r, s')"
proof (cases "available s p st = {}")
  case True
  then show ?thesis using allocate_student_none[OF assms] by blast
next
  case False
  then show ?thesis using allocate_student_some[OF assms, of s p st sg m] by blast
qed

lemma allocate_student_NoneD:
  assumes "set_order it" and "allocate_student it p st sg m s = Inr (None, s')"
  shows "available s p st = {} \<and> s' = s"
proof (cases "available s p st = {}")
  case True
  then show ?thesis using allocate_student_none[OF assms(1) True, of sg m] assms(2) by simp
next
  case False
  then show ?thesis using allocate_student_some[OF assms(1) False, of sg m] assms(2) by auto
qed

lemma allocate_student_SomeD:
  assumes "set_order it" and "allocate_student it p st sg m s = Inr (Some b, s')"
  shows "b \<in> available s p st \<and>
         (\<forall>x\<in>available s p st. score_of s sg m b \<le> score_of s sg m x) \<and>
         (\<exists>s1. same_reads s s1 \<and> s' = record_allocation b sg m s1)"
proof (cases "available s p st = {}")
  case True
  then show ?thesis using allocate_student_none[OF assms(1) True, of sg m] assms(2) by simp
next
  case False
  then show ?thesis using allocate_student_some[OF assms(1) False, of sg m] assms(2) by auto
qed

lemma allocate_student_reads:
  assumes "set_order it" and "allocate_student it p st sg m s = Inr (Some b, s')"
  shows "occupancy s' g = (if g = b then occupancy s b + 1 else occupancy s g)"
    and "source_groupe_count s' g l =
          (if g = b \<and> l = sg then source_groupe_count s b sg + 1 else source_groupe_count s g l)"
    and "metier_count s' g l =
          (if g = b \<and> l = m then metier_count s b m + 1 else metier_count s g l)"
proof -
  from allocate_student_SomeD[OF assms] obtain s1 where
    r: "same_reads s s1" and s': "s' = record_allocation b sg m s1" by blast
  from r have e: "occupancy s1 = occupancy s" "source_groupe_count s1 = source_groupe_count s"
    "metier_count s1 = metier_count s" by (simp_all add: same_reads_def)
  show "occupancy s' g = (if g = b then occupancy s b + 1 else occupancy s g)"
    by (simp add: s' record_allocation_occupancy e)
  show "source_groupe_count s' g l =
          (if g = b \<and> l = sg then source_groupe_count s b sg + 1 else source_groupe_count s g l)"
    by (simp add: s' record_allocation_source_groupe e)
  show "metier_count s' g l =
          (if g = b \<and> l = m then metier_count s b m + 1 else metier_count s g l)"
    by (simp add: s' record_allocation_metier e)
qed

lemma within_capacity_init: "within_capacity GroupAllocator"
  by (simp add: within_capacity_def occupancy_eq GroupAllocator_def capacities_eq split: if_splits)

lemma within_capacity_step:
  assumes "set_order it" and "within_capacity s"
    and "allocate_student it p st sg m s = Inr (r, s')"
  shows "within_capacity s'"
proof (cases r)
  case None
  then show ?thesis using allocate_student_NoneD[OF assms(1)] assms(2,3) by blast
next
  case (Some b)
  with assms(3) have a: "allocate_student it p st sg m s = Inr (Some b, s')" by simp
  from allocate_student_SomeD[OF assms(1) a] obtain cap where
    cap: "capacities b = Some cap" "occupancy s b < cap" by (auto simp: available_iff)
  show ?thesis
    unfolding within_capacity_def
  proof (intro allI impI)
    fix g c assume c: "capacities g = Some c"
    with assms(2) have "occupancy s g \<le> c" by (simp add: within_capacity_def)
    with cap c show "occupancy s' g \<le> c"
      by (auto simp: allocate_student_reads(1)[OF assms(1) a])
  qed
qed

lemma allocate_students_invariant:
  assumes "set_order it" and "within_capacity s"
  shows "\<exists>res s'. allocate_students it xs s = Inr (res, s') \<and> within_capacity s'"
  using assms(2)
proof (induction xs arbitrary: s)
  case Nil
  then show ?case by simp
next
  case (Cons x xs)
  obtain p st sg m where x: "x = (p, st, sg, m)" by (cases x) auto
  obtain r s1 where a: "allocate_student it p st sg m s = Inr (r, s1)"
    using allocate_student_total[OF assms(1)] by blast
  have "within_capacity s1" using within_capacity_step[OF assms(1) Cons.prems a] .
  from Cons.IH[OF this] obtain res s' where
    "allocate_students it xs s1 = Inr (res, s')" "within_capacity s'" by blast
  then show ?case by (simp add: x a)
qed

lemma record_allocation_key: "group_counts (record_allocation b sg m s) b \<noteq> None"
  by (simp add: record_allocation_def Let_def dd_incr_apply)

lemma validate_after_allocate:
  assumes "set_order it" and "allocate_student it p st sg m s = Inr (Some g, s')"
  shows "validate_allocation g p st s' = Inr (True, s')"
proof -
  from allocate_student_SomeD[OF assms] obtain s1 cap where
    el: "g \<in> eligible p st" and cap: "capacities g = Some cap" "occupancy s g < cap"
    and s': "s' = record_allocation g sg m s1"
    by (auto simp: available_iff)
  have "group_counts s' g \<noteq> None" by (simp add: s' record_allocation_key)
  then have t: "touch {g} (group_counts s') = group_counts s'"
    by (simp add: touch_present)
  have rc: "read_count g s' = (occupancy s' g, s')"
    by (simp add: read_count_eq t)
  have occ: "occupancy s' g = occupancy s g + 1"
    by (simp add: allocate_student_reads(1)[OF assms])
  from el have per: "p = ''P1'' \<longrightarrow> g \<in> p1_groups" "p = ''P2'' \<longrightarrow> g \<in> p2_groups"
    "st \<longrightarrow> g \<notin> stage_forbidden"
    by (auto simp: eligible_def split: if_splits)
  show ?thesis
    using cap per by (simp add: validate_allocation_def rc occ)
qed

lemma allocate_row_eq:
  assumes "set_order it"
  shows "allocate_row it r s =
     (case allocate_student it (periode r) (stage r = ''oui'') (groupe r) (metier r) s of
        Inl e \<Rightarrow> Inl e
      | Inr (None, s1) \<Rightarrow> Inr (r\<lparr>nouveau_groupe := ''''\<rparr>, s1)
      | Inr (Some g, s1) \<Rightarrow> Inr (r\<lparr>nouveau_groupe := str g\<rparr>, s1))"
proof -
  obtain res s1 where a:
    "allocate_student it (periode r) (stage r = ''oui'') (groupe r) (metier r) s = Inr (res, s1)"
    using allocate_student_total[OF assms] by blast
  show ?thesis
  proof (cases res)
    case None
    then show ?thesis using a by (simp add: allocate_row_def)
  next
    case (Some g)
    with a validate_after_allocate[OF assms, of "periode r" "stage r = ''oui''" "groupe r" "metier r" s g s1]
    show ?thesis by (simp add: allocate_row_def)
  qed
qed

lemma allocate_row_total:
  assumes "set_order it"
  shows "\<exists>res s'. allocate_student it (periode r) (stage r = ''oui'') (groupe r) (metier r) s = Inr (res, s')
           \<and> allocate_row it r s =
               Inr (r\<lparr>nouveau_groupe := (case res of None \<Rightarrow> '''' | Some g \<Rightarrow> str g)\<rparr>, s')"
proof -
  obtain res s1 where a:
    "allocate_student it (periode r) (stage r = ''oui'') (groupe r) (metier r) s = Inr (res, s1)"
    using allocate_student_total[OF assms] by blast
  then show ?thesis by (cases res) (simp_all add: allocate_row_eq[OF assms])
qed

lemma allocate_rows_invariant:
  assumes "set_order it" and "within_capacity s"
  shows "\<exists>rs' s'. allocate_rows it rs s = Inr (rs', s') \<and> within_capacity s'"
  using assms(2)
proof (induction rs arbitrary: s)
  case Nil
  then show ?case by simp
next
  case (Cons r rs)
  from allocate_row_total[OF assms(1), of r s] obtain res s1 r' where
    a: "allocate_student it (periode r) (stage r = ''oui'') (groupe r) (metier r) s = Inr (res, s1)"
    and b: "allocate_row it r s = Inr (r', s1)" by blast
  have "within_capacity s1" using within_capacity_step[OF assms(1) Cons.prems a] .
  from Cons.IH[OF this] obtain rs' s' where
    "allocate_rows it rs s1 = Inr (rs', s')" "within_capacity s'" by blast
  then show ?case by (simp add: b)
qed

lemma allocate_rows_total:
  assumes "set_order it"
  shows "\<exists>rs' s'. allocate_rows it rs s = Inr (rs', s')"
proof (induction rs arbitrary: s)
  case Nil
  then show ?case by simp
next
  case (Cons r rs)
  from allocate_row_total[OF assms(1), of r s] obtain s1 r' where
    b: "allocate_row it r s = Inr (r', s1)" by blast
  from Cons.IH[of s1] obtain rs' s' where "allocate_rows it rs s1 = Inr (rs', s')" by blast
  then show ?case by (simp add: b)
qed

lemma capacity_value:
  "1 \<le> g \<Longrightarrow> g \<le> 23 \<Longrightarrow> capacities g = Some (if g \<le> 4 then 8 else if g \<le> 22 then 7 else 6)"
  by (simp add: capacities_eq)

lemma lex_less_iff: "lex_less a b \<longleftrightarrow> a < b"
  by (cases a, cases b) (auto simp: lex_less_def)

lemma eval_Inr: "map_sum id fst x = Inr r \<Longrightarrow> \<exists>s'. x = Inr (r, s')"
  by (cases x) auto

lemma occupancy_init: "occupancy GroupAllocator g = 0"
  by (simp add: occupancy_eq GroupAllocator_def)

lemma score_of_init: "score_of GroupAllocator sg m g = (0, 0, 0, g)"
  by (simp add: score_of_eq occupancy_eq source_groupe_count_eq metier_count_eq GroupAllocator_def)

lemma str_nat_nonempty: "str_nat n \<noteq> []"
  by (subst str_nat.simps) simp

lemma str_nonempty: "str g \<noteq> []"
  by (simp add: str_def str_nat_nonempty)

lemma available_empty_iff:
  assumes "within_capacity s"
  shows "available s p st = {} \<longleftrightarrow> (\<forall>g\<in>eligible p st. capacities g = Some (occupancy s g))"
proof
  assume e: "available s p st = {}"
  show "\<forall>g\<in>eligible p st. capacities g = Some (occupancy s g)"
  proof
    fix g assume g: "g \<in> eligible p st"
    then obtain cap where cap: "capacities g = Some cap"
      using eligible_range capacities_dom by blast
    with assms have "occupancy s g \<le> cap" by (simp add: within_capacity_def)
    moreover from e g cap have "\<not> occupancy s g < cap"
      using available_iff[of g s p st] by blast
    ultimately show "capacities g = Some (occupancy s g)" using cap by simp
  qed
next
  assume "\<forall>g\<in>eligible p st. capacities g = Some (occupancy s g)"
  then show "available s p st = {}" by (auto simp: available_iff)
qed

lemma allocate_student_order:
  assumes "set_order it1" and "set_order it2"
  shows "allocate_student it1 p st sg m s = allocate_student it2 p st sg m s"
  by (simp add: allocate_student_def get_allowed_groups_eq[OF assms(1)]
      get_allowed_groups_eq[OF assms(2)])

lemma allocate_row_order:
  assumes "set_order it1" and "set_order it2"
  shows "allocate_row it1 r s = allocate_row it2 r s"
  by (simp add: allocate_row_def allocate_student_order[OF assms])

lemma p2_groups_range: "g \<in> p2_groups \<Longrightarrow> 1 \<le> g \<and> g \<le> 16"
  by (auto simp: p2_groups_def)

lemma available_p2:
  assumes "\<And>g. g \<in> p2_groups \<Longrightarrow> occupancy t g \<le> 1"
  shows "available t ''P2'' False = p2_groups"
proof (rule set_eqI)
  fix g
  show "g \<in> available t ''P2'' False \<longleftrightarrow> g \<in> p2_groups"
  proof (cases "g \<in> p2_groups")
    case True
    from p2_groups_range[OF True] obtain c where c: "capacities g = Some c" "6 \<le> c"
      using capacities_dom[of g] by auto
    from assms[OF True] c have "occupancy t g < c" by simp
    with c True show ?thesis by (simp add: available_iff eligible_def)
  next
    case False
    then show ?thesis by (simp add: available_iff eligible_def)
  qed
qed

lemma allocate_row_destination:
  assumes "r1\<lparr>nouveau_groupe := ''''\<rparr> = r2\<lparr>nouveau_groupe := ''''\<rparr>"
  shows "allocate_row it r1 s = allocate_row it r2 s"
proof -
  from assms have f: "periode r1 = periode r2" "stage r1 = stage r2" "groupe r1 = groupe r2"
    "metier r1 = metier r2"
    by (metis row.select_convs row.surjective row.update_convs)+
  from assms have u: "r1\<lparr>nouveau_groupe := d\<rparr> = r2\<lparr>nouveau_groupe := d\<rparr>" for d
    by (metis row.update_convs(7) row.surjective)
  show ?thesis
    by (simp add: allocate_row_def Let_def f u split: sum.splits prod.splits option.splits)
qed

lemma allocate_rows_destination:
  "map (\<lambda>r. r\<lparr>nouveau_groupe := ''''\<rparr>) rows1 = map (\<lambda>r. r\<lparr>nouveau_groupe := ''''\<rparr>) rows2 \<Longrightarrow>
   allocate_rows it rows1 s = allocate_rows it rows2 s"
proof (induction rows1 arbitrary: rows2 s)
  case Nil
  then show ?case by simp
next
  case (Cons r1 rs1)
  then obtain r2 rs2 where rows2: "rows2 = r2 # rs2"
    and h: "r1\<lparr>nouveau_groupe := ''''\<rparr> = r2\<lparr>nouveau_groupe := ''''\<rparr>"
    and t: "map (\<lambda>r. r\<lparr>nouveau_groupe := ''''\<rparr>) rs1 = map (\<lambda>r. r\<lparr>nouveau_groupe := ''''\<rparr>) rs2"
    by (cases rows2) auto
  show ?case
    by (simp add: rows2 allocate_row_destination[OF h] Cons.IH[OF t]
        split: sum.splits prod.splits)
qed

lemma allocate_rows_students:
  assumes "set_order it"
  shows "\<exists>ress s'.
           allocate_students it (map (\<lambda>r. (periode r, stage r = ''oui'', groupe r, metier r)) rows) s
             = Inr (ress, s') \<and>
           length ress = length rows \<and>
           allocate_rows it rows s =
             Inr (map2 (\<lambda>r res. r\<lparr>nouveau_groupe := (case res of None \<Rightarrow> '''' | Some g \<Rightarrow> str g)\<rparr>)
                    rows ress, s')"
proof (induction rows arbitrary: s)
  case Nil
  then show ?case by simp
next
  case (Cons r rs)
  from allocate_row_total[OF assms, of r s] obtain res s1 where
    a: "allocate_student it (periode r) (stage r = ''oui'') (groupe r) (metier r) s = Inr (res, s1)"
    and b: "allocate_row it r s =
        Inr (r\<lparr>nouveau_groupe := (case res of None \<Rightarrow> '''' | Some g \<Rightarrow> str g)\<rparr>, s1)"
    by blast
  from Cons.IH[of s1] obtain ress s' where
    c: "allocate_students it (map (\<lambda>r. (periode r, stage r = ''oui'', groupe r, metier r)) rs) s1
          = Inr (ress, s')"
    and l: "length ress = length rs"
    and d: "allocate_rows it rs s1 =
        Inr (map2 (\<lambda>r res. r\<lparr>nouveau_groupe := (case res of None \<Rightarrow> '''' | Some g \<Rightarrow> str g)\<rparr>)
               rs ress, s')"
    by blast
  have "allocate_students it
          (map (\<lambda>r. (periode r, stage r = ''oui'', groupe r, metier r)) (r # rs)) s
        = Inr (res # ress, s')"
    by (simp add: a c)
  moreover have "allocate_rows it (r # rs) s =
      Inr (map2 (\<lambda>r res. r\<lparr>nouveau_groupe := (case res of None \<Rightarrow> '''' | Some g \<Rightarrow> str g)\<rparr>)
             (r # rs) (res # ress), s')"
    by (simp add: b d)
  moreover have "length (res # ress) = length (r # rs)" by (simp add: l)
  ultimately show ?case by blast
qed

section \<open>The properties of the specification\<close>

text \<open>
  \<^bold>\<open>C1\<close> (capacity invariant). After any sequence of calls of \<open>allocate_student\<close> on a new
  allocator, and at the end of the allocation loop of \<open>main\<close> on any list of rows, every
  group \<open>g\<close> from 1 to 23 holds at most \<open>capacities[g]\<close> students, and the capacity is 8 for
  the groups 1 to 4, 7 for the groups 5 to 22 and 6 for the group 23. Neither the calls
  nor the loop raise. A prefix of a sequence of calls is a sequence of calls, so the bound
  holds after every call.
\<close>

theorem capacity_invariant:
  assumes "set_order it"
  shows "(\<exists>res s. allocate_students it xs GroupAllocator = Inr (res, s) \<and>
            (\<forall>g. 1 \<le> g \<and> g \<le> 23 \<longrightarrow>
               capacities g = Some (if g \<le> 4 then 8 else if g \<le> 22 then 7 else 6) \<and>
               occupancy s g \<le> (if g \<le> 4 then 8 else if g \<le> 22 then 7 else 6))) \<and>
         (\<exists>rows' s. allocate_rows it rows GroupAllocator = Inr (rows', s) \<and>
            (\<forall>g. 1 \<le> g \<and> g \<le> 23 \<longrightarrow>
               capacities g = Some (if g \<le> 4 then 8 else if g \<le> 22 then 7 else 6) \<and>
               occupancy s g \<le> (if g \<le> 4 then 8 else if g \<le> 22 then 7 else 6)))"
proof -
  have k: "within_capacity s \<Longrightarrow> \<forall>g. 1 \<le> g \<and> g \<le> 23 \<longrightarrow>
               capacities g = Some (if g \<le> 4 then 8 else if g \<le> 22 then 7 else 6) \<and>
               occupancy s g \<le> (if g \<le> 4 then 8 else if g \<le> 22 then 7 else 6)" for s
    using capacity_value by (simp add: within_capacity_def)
  from allocate_students_invariant[OF assms within_capacity_init, of xs]
  have 1: "\<exists>res s. allocate_students it xs GroupAllocator = Inr (res, s) \<and> within_capacity s" .
  from allocate_rows_invariant[OF assms within_capacity_init, of rows]
  have 2: "\<exists>rows' s. allocate_rows it rows GroupAllocator = Inr (rows', s) \<and> within_capacity s" .
  from 1 2 k show ?thesis by blast
qed

text \<open>An instance of C1 on concrete data.\<close>

theorem capacity_invariant_witness:
  "set_order sorted_list_of_set \<and>
   (\<exists>res s. allocate_students sorted_list_of_set
        [(''P1'', True, ''G1'', ''medecin''), (''P2'', False, ''G1'', ''medecin'')] GroupAllocator
        = Inr (res, s) \<and>
      capacities 17 = Some 7 \<and> occupancy s 17 \<le> 7 \<and> capacities 1 = Some 8 \<and> occupancy s 1 \<le> 8) \<and>
   (\<exists>rows' s. allocate_rows sorted_list_of_set
        [\<lparr>line_num = ''1'', metier = ''medecin'', choix_master = ''A'', groupe = ''G1'',
          stage = ''oui'', periode = ''P1'', nouveau_groupe = ''''\<rparr>] GroupAllocator
        = Inr (rows', s) \<and>
      capacities 23 = Some 6 \<and> occupancy s 23 \<le> 6)"
proof -
  let ?xs = "[(''P1'', True, ''G1'', ''medecin''), (''P2'', False, ''G1'', ''medecin'')]"
  let ?rows = "[\<lparr>line_num = ''1'', metier = ''medecin'', choix_master = ''A'', groupe = ''G1'',
          stage = ''oui'', periode = ''P1'', nouveau_groupe = ''''\<rparr>]"
  from capacity_invariant[OF set_order_sorted, of ?xs ?rows]
  obtain res s rows' s' where
    1: "allocate_students sorted_list_of_set ?xs GroupAllocator = Inr (res, s)"
    and 2: "\<forall>g. 1 \<le> g \<and> g \<le> 23 \<longrightarrow>
               capacities g = Some (if g \<le> 4 then 8 else if g \<le> 22 then 7 else 6) \<and>
               occupancy s g \<le> (if g \<le> 4 then 8 else if g \<le> 22 then 7 else 6)"
    and 3: "allocate_rows sorted_list_of_set ?rows GroupAllocator = Inr (rows', s')"
    and 4: "\<forall>g. 1 \<le> g \<and> g \<le> 23 \<longrightarrow>
               capacities g = Some (if g \<le> 4 then 8 else if g \<le> 22 then 7 else 6) \<and>
               occupancy s' g \<le> (if g \<le> 4 then 8 else if g \<le> 22 then 7 else 6)"
    by blast
  from 2[rule_format, of 17] 2[rule_format, of 1] 4[rule_format, of 23]
  have "capacities 17 = Some 7 \<and> occupancy s 17 \<le> 7 \<and> capacities 1 = Some 8 \<and> occupancy s 1 \<le> 8"
    "capacities 23 = Some 6 \<and> occupancy s' 23 \<le> 6" by simp_all
  with 1 3 set_order_sorted show ?thesis by blast
qed

text \<open>
  \<^bold>\<open>C2\<close> (eligibility invariant). From any allocator state, a group \<open>g\<close> that
  \<open>allocate_student\<close> returns is one of 1, 2, 3, 4, 17, ..., 23 when the period is P1, one of
  1, ..., 16 when the period is P2, and none of 1, 2, 3, 4 when the stage flag is true.
\<close>

theorem eligibility_invariant:
  assumes "set_order it" and "allocate_student it p st sg m s = Inr (Some g, s')"
  shows "(p = ''P1'' \<longrightarrow> g \<in> {1, 2, 3, 4, 17, 18, 19, 20, 21, 22, 23}) \<and>
         (p = ''P2'' \<longrightarrow> g \<in> {1, 2, 3, 4, 5, 6, 7, 8, 9, 10, 11, 12, 13, 14, 15, 16}) \<and>
         (st \<longrightarrow> g \<notin> {1, 2, 3, 4})"
proof -
  from allocate_student_SomeD[OF assms] have "g \<in> eligible p st"
    by (simp add: available_iff)
  then show ?thesis
    by (auto simp: eligible_def p1_groups_def p2_groups_def stage_forbidden_def split: if_splits)
qed

text \<open>An instance of C2 on concrete data.\<close>

theorem eligibility_invariant_witness:
  "set_order sorted_list_of_set \<and>
   (\<exists>s'. allocate_student sorted_list_of_set ''P1'' True ''G1'' ''medecin'' GroupAllocator
            = Inr (Some 17, s')) \<and>
   (17::int) \<in> {1, 2, 3, 4, 17, 18, 19, 20, 21, 22, 23} \<and> (17::int) \<notin> {1, 2, 3, 4}"
proof -
  have "map_sum id fst (allocate_student sorted_list_of_set ''P1'' True ''G1'' ''medecin''
      GroupAllocator) = Inr (Some 17)"
    by code_simp
  from eval_Inr[OF this] obtain s' where
    a: "allocate_student sorted_list_of_set ''P1'' True ''G1'' ''medecin'' GroupAllocator
          = Inr (Some 17, s')"
    by (rule exE)
  from eligibility_invariant[OF set_order_sorted a]
  have "(17::int) \<in> {1, 2, 3, 4, 17, 18, 19, 20, 21, 22, 23} \<and> (17::int) \<notin> {1, 2, 3, 4}"
    by simp
  with a set_order_sorted show ?thesis by (intro conjI exI[of _ s']) simp_all
qed

text \<open>
  \<^bold>\<open>C3\<close> (selection rule). When some eligible group is available, \<open>allocate_student\<close>
  returns an eligible and available group whose tuple (occupancy, count of the same source
  group, count of the same profession, group number) is strictly below the tuple of every
  other eligible and available group in the lexicographic order; so the group returned is
  the unique minimum, the lowest group number deciding the remaining ties.
\<close>

theorem selection_rule:
  assumes "set_order it" and "available s p st \<noteq> {}"
  shows "\<exists>g s'. allocate_student it p st sg m s = Inr (Some g, s') \<and> g \<in> available s p st \<and>
           (\<forall>h\<in>available s p st. h \<noteq> g \<longrightarrow>
              lex_less (occupancy s g, source_groupe_count s g sg, metier_count s g m, g)
                       (occupancy s h, source_groupe_count s h sg, metier_count s h m, h))"
proof -
  from allocate_student_some[OF assms, of sg m] obtain b s1 where
    a: "allocate_student it p st sg m s = Inr (Some b, record_allocation b sg m s1)"
    and mem: "b \<in> available s p st"
    and le: "\<forall>x\<in>available s p st. score_of s sg m b \<le> score_of s sg m x" by blast
  have "lex_less (score_of s sg m b) (score_of s sg m h)"
    if "h \<in> available s p st" "h \<noteq> b" for h
  proof -
    from le that have "score_of s sg m b \<le> score_of s sg m h" by blast
    moreover from that have "score_of s sg m b \<noteq> score_of s sg m h"
      by (simp add: score_of_eq)
    ultimately show ?thesis by (simp add: lex_less_iff)
  qed
  with a mem show ?thesis by (auto simp: score_of_eq)
qed

text \<open>An instance of C3 on concrete data.\<close>

theorem selection_rule_witness:
  "(let s = \<lparr>group_counts = map_of [(17, 1), (18, 1), (19, 1), (20, 1), (21, 1), (22, 1), (23, 1)],
             group_source_groupes = [17 \<mapsto> [''G1'' \<mapsto> 1]],
             group_metiers = [18 \<mapsto> [''medecin'' \<mapsto> 1]]\<rparr>
    in set_order sorted_list_of_set \<and> available s ''P1'' True \<noteq> {} \<and>
       (\<exists>s'. allocate_student sorted_list_of_set ''P1'' True ''G1'' ''medecin'' s
                = Inr (Some 19, s')) \<and>
       17 \<in> available s ''P1'' True \<and> 18 \<in> available s ''P1'' True \<and>
       lex_less (occupancy s 19, source_groupe_count s 19 ''G1'', metier_count s 19 ''medecin'', 19)
                (occupancy s 17, source_groupe_count s 17 ''G1'', metier_count s 17 ''medecin'', 17) \<and>
       lex_less (occupancy s 19, source_groupe_count s 19 ''G1'', metier_count s 19 ''medecin'', 19)
                (occupancy s 18, source_groupe_count s 18 ''G1'', metier_count s 18 ''medecin'', 18))"
proof -
  let ?s = "\<lparr>group_counts = map_of [(17, 1), (18, 1), (19, 1), (20, 1), (21, 1), (22, 1), (23, 1)],
             group_source_groupes = [17 \<mapsto> [''G1'' \<mapsto> 1]],
             group_metiers = [18 \<mapsto> [''medecin'' \<mapsto> 1]]\<rparr>"
  have m: "17 \<in> available ?s ''P1'' True" "18 \<in> available ?s ''P1'' True"
    by code_simp+
  then have ne: "available ?s ''P1'' True \<noteq> {}" by blast
  have ev: "map_sum id fst (allocate_student sorted_list_of_set ''P1'' True ''G1'' ''medecin'' ?s)
      = Inr (Some 19)"
    by code_simp
  from selection_rule[OF set_order_sorted ne, of "''G1''" "''medecin''"] obtain g s' where
    a: "allocate_student sorted_list_of_set ''P1'' True ''G1'' ''medecin'' ?s = Inr (Some g, s')"
    and least: "\<forall>h\<in>available ?s ''P1'' True. h \<noteq> g \<longrightarrow>
              lex_less (occupancy ?s g, source_groupe_count ?s g ''G1'', metier_count ?s g ''medecin'', g)
                       (occupancy ?s h, source_groupe_count ?s h ''G1'', metier_count ?s h ''medecin'', h)"
    by blast
  from a ev have g: "g = 19" by simp
  from least[rule_format, OF m(1)] least[rule_format, OF m(2)] g
  have "lex_less (occupancy ?s 19, source_groupe_count ?s 19 ''G1'', metier_count ?s 19 ''medecin'', 19)
                (occupancy ?s 17, source_groupe_count ?s 17 ''G1'', metier_count ?s 17 ''medecin'', 17)"
       "lex_less (occupancy ?s 19, source_groupe_count ?s 19 ''G1'', metier_count ?s 19 ''medecin'', 19)
                (occupancy ?s 18, source_groupe_count ?s 18 ''G1'', metier_count ?s 18 ''medecin'', 18)"
    by simp_all
  moreover from a g have "\<exists>s'. allocate_student sorted_list_of_set ''P1'' True ''G1'' ''medecin'' ?s
                = Inr (Some 19, s')" by blast
  ultimately show ?thesis
    unfolding Let_def using set_order_sorted ne m by (intro conjI)
qed

text \<open>
  \<^bold>\<open>C4\<close> (unassigned if and only if exhausted). Let \<open>s\<close> be the allocator state that the
  loop of \<open>main\<close> reaches after any list of rows, from a new allocator (or from any allocator
  within capacity). If every group of the eligibility set of the row \<open>r\<close> has an occupancy
  equal to its capacity (in particular when the set is empty), \<open>allocate_student\<close> returns
  \<open>None\<close>, the loop body stores the empty string and goes on without an error. Otherwise
  \<open>allocate_student\<close> returns a group, and the loop body stores its decimal string, which
  is not empty.
\<close>

theorem unassigned_iff_exhausted:
  assumes "set_order it" and "s0 = GroupAllocator \<or> within_capacity s0"
    and "allocate_rows it rows s0 = Inr (rows', s)"
  shows "((\<forall>g\<in>eligible (periode r) (stage r = ''oui''). capacities g = Some (occupancy s g)) \<longrightarrow>
            allocate_student it (periode r) (stage r = ''oui'') (groupe r) (metier r) s = Inr (None, s) \<and>
            allocate_row it r s = Inr (r\<lparr>nouveau_groupe := ''''\<rparr>, s)) \<and>
         (\<not> (\<forall>g\<in>eligible (periode r) (stage r = ''oui''). capacities g = Some (occupancy s g)) \<longrightarrow>
            (\<exists>g s'. allocate_student it (periode r) (stage r = ''oui'') (groupe r) (metier r) s = Inr (Some g, s') \<and>
               allocate_row it r s = Inr (r\<lparr>nouveau_groupe := str g\<rparr>, s') \<and> str g \<noteq> ''''))"
proof -
  from assms(2) have "within_capacity s0" using within_capacity_init by blast
  from allocate_rows_invariant[OF assms(1) this, of rows] assms(3)
  have inv: "within_capacity s" by auto
  note iff = available_empty_iff[OF inv, of "periode r" "stage r = ''oui''"]
  show ?thesis
  proof (intro conjI impI)
    assume "\<forall>g\<in>eligible (periode r) (stage r = ''oui''). capacities g = Some (occupancy s g)"
    with iff have e: "available s (periode r) (stage r = ''oui'') = {}" by simp
    from allocate_student_none[OF assms(1) e]
    show "allocate_student it (periode r) (stage r = ''oui'') (groupe r) (metier r) s = Inr (None, s)" .
    then show "allocate_row it r s = Inr (r\<lparr>nouveau_groupe := ''''\<rparr>, s)"
      by (simp add: allocate_row_eq[OF assms(1)])
  next
    assume "\<not> (\<forall>g\<in>eligible (periode r) (stage r = ''oui''). capacities g = Some (occupancy s g))"
    with iff have ne: "available s (periode r) (stage r = ''oui'') \<noteq> {}" by simp
    from allocate_student_some[OF assms(1) ne, of "groupe r" "metier r"] obtain g s' where
      a: "allocate_student it (periode r) (stage r = ''oui'') (groupe r) (metier r) s = Inr (Some g, s')"
      by blast
    then have "allocate_row it r s = Inr (r\<lparr>nouveau_groupe := str g\<rparr>, s')"
      by (simp add: allocate_row_eq[OF assms(1)])
    with a str_nonempty show "\<exists>g s'. allocate_student it (periode r) (stage r = ''oui'') (groupe r) (metier r) s = Inr (Some g, s') \<and>
               allocate_row it r s = Inr (r\<lparr>nouveau_groupe := str g\<rparr>, s') \<and> str g \<noteq> ''''"
      by blast
  qed
qed

text \<open>An instance of C4 on concrete data.\<close>

theorem unassigned_iff_exhausted_witness:
  "(let s0 = \<lparr>group_counts = map_of [(17, 7), (18, 7), (19, 7), (20, 7), (21, 7), (22, 7), (23, 5)],
              group_source_groupes = Map.empty, group_metiers = Map.empty\<rparr>;
        r = \<lparr>line_num = ''1'', metier = ''medecin'', choix_master = ''A'', groupe = ''G1'',
             stage = ''oui'', periode = ''P1'', nouveau_groupe = ''''\<rparr>
    in set_order sorted_list_of_set \<and> within_capacity s0 \<and>
       (\<exists>rows' s. allocate_rows sorted_list_of_set [r] s0 = Inr (rows', s) \<and>
          map nouveau_groupe rows' = [''23''] \<and>
          list_all (\<lambda>g. capacities g = Some (occupancy s g)) [17, 18, 19, 20, 21, 22, 23] \<and>
          allocate_student sorted_list_of_set ''P1'' True ''G1'' ''medecin'' s = Inr (None, s) \<and>
          allocate_row sorted_list_of_set r s = Inr (r\<lparr>nouveau_groupe := ''''\<rparr>, s)))"
proof -
  let ?s0 = "\<lparr>group_counts = map_of [(17, 7), (18, 7), (19, 7), (20, 7), (21, 7), (22, 7), (23, 5)],
              group_source_groupes = Map.empty, group_metiers = Map.empty\<rparr>"
  let ?r = "\<lparr>line_num = ''1'', metier = ''medecin'', choix_master = ''A'', groupe = ''G1'',
             stage = ''oui'', periode = ''P1'', nouveau_groupe = ''''\<rparr>"
  have wc: "within_capacity ?s0"
    unfolding within_capacity_def
  proof (intro allI impI)
    fix g cap assume c: "capacities g = Some cap"
    then have "6 \<le> cap" by (auto simp: capacities_eq split: if_splits)
    moreover have "occupancy ?s0 g \<le> 7" by (simp add: occupancy_eq)
    moreover have "occupancy ?s0 g \<le> 5" if "g = 23" using that by (simp add: occupancy_eq)
    moreover have "cap = 7 \<or> cap = 8" if "g \<noteq> 23"
      using c that by (auto simp: capacities_eq split: if_splits)
    ultimately show "occupancy ?s0 g \<le> cap" by (cases "g = 23") auto
  qed
  have ev: "map_sum id (\<lambda>(rs, s). (map nouveau_groupe rs,
        list_all (\<lambda>g. capacities g = Some (occupancy s g)) [17, 18, 19, 20, 21, 22, 23]))
      (allocate_rows sorted_list_of_set [?r] ?s0) = Inr ([''23''], True)"
    by code_simp
  obtain rows' s where a: "allocate_rows sorted_list_of_set [?r] ?s0 = Inr (rows', s)"
    using allocate_rows_total[OF set_order_sorted] by blast
  with ev have d: "map nouveau_groupe rows' = [''23'']"
    and f: "list_all (\<lambda>g. capacities g = Some (occupancy s g)) [17, 18, 19, 20, 21, 22, 23]"
    by simp_all
  have el: "eligible ''P1'' True = {17, 18, 19, 20, 21, 22, 23}"
    by (auto simp: eligible_def p1_groups_def stage_forbidden_def)
  from f have full: "\<forall>g\<in>eligible (periode ?r) (stage ?r = ''oui''). capacities g = Some (occupancy s g)"
    by (simp add: el)
  from unassigned_iff_exhausted[OF set_order_sorted disjI2[OF wc] a, of ?r] full
  have "allocate_student sorted_list_of_set (periode ?r) (stage ?r = ''oui'') (groupe ?r) (metier ?r) s
          = Inr (None, s) \<and>
        allocate_row sorted_list_of_set ?r s = Inr (?r\<lparr>nouveau_groupe := ''''\<rparr>, s)"
    by (rule conjunct1[THEN mp])
  then have "allocate_student sorted_list_of_set ''P1'' True ''G1'' ''medecin'' s = Inr (None, s)"
    "allocate_row sorted_list_of_set ?r s = Inr (?r\<lparr>nouveau_groupe := ''''\<rparr>, s)"
    by simp_all
  with a d f have "\<exists>rows' s. allocate_rows sorted_list_of_set [?r] ?s0 = Inr (rows', s) \<and>
          map nouveau_groupe rows' = [''23''] \<and>
          list_all (\<lambda>g. capacities g = Some (occupancy s g)) [17, 18, 19, 20, 21, 22, 23] \<and>
          allocate_student sorted_list_of_set ''P1'' True ''G1'' ''medecin'' s = Inr (None, s) \<and>
          allocate_row sorted_list_of_set ?r s = Inr (?r\<lparr>nouveau_groupe := ''''\<rparr>, s)"
    by (intro exI[of _ rows'] exI[of _ s] conjI)
  with wc set_order_sorted show ?thesis unfolding Let_def by (intro conjI)
qed

text \<open>
  \<^bold>\<open>C5\<close> (the validator never fails). From any allocator state, when \<open>allocate_student\<close>
  returns a group \<open>g\<close>, \<open>validate_allocation\<close> on \<open>g\<close>, the same period and the same stage
  flag, in the state after the allocation, returns \<open>True\<close> (and leaves the state as it is).
  So the loop of \<open>main\<close> never reaches \<open>sys.exit(1)\<close>: on every list of rows and from every
  state it returns normally.
\<close>

theorem validator_unreachable:
  assumes "set_order it"
  shows "(allocate_student it p st sg m s = Inr (Some g, s') \<longrightarrow>
            validate_allocation g p st s' = Inr (True, s')) \<and>
         (\<exists>rows' s''. allocate_rows it rows s0 = Inr (rows', s''))"
  using validate_after_allocate[OF assms] allocate_rows_total[OF assms] by blast

text \<open>An instance of C5 on concrete data.\<close>

theorem validator_unreachable_witness:
  "set_order sorted_list_of_set \<and>
   (\<exists>s'. allocate_student sorted_list_of_set ''P2'' False ''G1'' ''medecin'' GroupAllocator
            = Inr (Some 1, s') \<and>
          validate_allocation 1 ''P2'' False s' = Inr (True, s')) \<and>
   (\<exists>rows' s''. allocate_rows sorted_list_of_set
        [\<lparr>line_num = ''1'', metier = ''medecin'', choix_master = ''A'', groupe = ''G1'',
          stage = ''non'', periode = ''P2'', nouveau_groupe = ''''\<rparr>] GroupAllocator
        = Inr (rows', s''))"
proof -
  have "map_sum id fst (allocate_student sorted_list_of_set ''P2'' False ''G1'' ''medecin''
      GroupAllocator) = Inr (Some 1)"
    by code_simp
  from eval_Inr[OF this] obtain s' where
    a: "allocate_student sorted_list_of_set ''P2'' False ''G1'' ''medecin'' GroupAllocator
          = Inr (Some 1, s')"
    by (rule exE)
  note v = validator_unreachable[OF set_order_sorted, of "''P2''" False "''G1''" "''medecin''"
      GroupAllocator 1 s'
      "[\<lparr>line_num = ''1'', metier = ''medecin'', choix_master = ''A'', groupe = ''G1'',
          stage = ''non'', periode = ''P2'', nouveau_groupe = ''''\<rparr>]" GroupAllocator]
  from v a have "validate_allocation 1 ''P2'' False s' = Inr (True, s')"
    by (rule conjunct1[THEN mp])
  moreover from v have "\<exists>rows' s''. allocate_rows sorted_list_of_set
        [\<lparr>line_num = ''1'', metier = ''medecin'', choix_master = ''A'', groupe = ''G1'',
          stage = ''non'', periode = ''P2'', nouveau_groupe = ''''\<rparr>] GroupAllocator
        = Inr (rows', s'')"
    by (rule conjunct2)
  ultimately show ?thesis using a set_order_sorted by (intro conjI exI[of _ s']) simp_all
qed

text \<open>
  \<^bold>\<open>C6\<close> (determinism). The model is a function of the list of rows, of the initial
  allocator and of the order in which Python visits a set, which is the one thing the
  language leaves open in this code. Two runs of the loop on the same rows from the same
  allocator, whatever the two orders are, give the same rows and the same final
  allocator (or the same error).
\<close>

theorem allocation_deterministic:
  assumes "set_order it1" and "set_order it2"
  shows "allocate_rows it1 rows s = allocate_rows it2 rows s"
  by (induction rows arbitrary: s)
     (simp_all add: allocate_row_order[OF assms] split: sum.splits prod.splits)

text \<open>An instance of C6 on concrete data.\<close>

theorem allocation_deterministic_witness:
  "set_order sorted_list_of_set \<and> set_order (\<lambda>A. rev (sorted_list_of_set A)) \<and>
   allocate_rows sorted_list_of_set
     [\<lparr>line_num = ''1'', metier = ''medecin'', choix_master = ''A'', groupe = ''G1'',
       stage = ''oui'', periode = ''P1'', nouveau_groupe = ''''\<rparr>,
      \<lparr>line_num = ''2'', metier = ''medecin'', choix_master = ''B'', groupe = ''G1'',
       stage = ''non'', periode = ''P2'', nouveau_groupe = ''''\<rparr>] GroupAllocator =
   allocate_rows (\<lambda>A. rev (sorted_list_of_set A))
     [\<lparr>line_num = ''1'', metier = ''medecin'', choix_master = ''A'', groupe = ''G1'',
       stage = ''oui'', periode = ''P1'', nouveau_groupe = ''''\<rparr>,
      \<lparr>line_num = ''2'', metier = ''medecin'', choix_master = ''B'', groupe = ''G1'',
       stage = ''non'', periode = ''P2'', nouveau_groupe = ''''\<rparr>] GroupAllocator"
proof -
  have r: "set_order (\<lambda>A. rev (sorted_list_of_set A))"
    by (simp add: set_order_def)
  from allocation_deterministic[OF set_order_sorted r] set_order_sorted r
  show ?thesis by blast
qed

text \<open>
  \<^bold>\<open>C7\<close> (scenario). On a new allocator, a student of period P1 with the stage flag true,
  whatever the source group and the profession, is given the group 17.
\<close>

theorem fresh_p1_stage_scenario:
  assumes "set_order it"
  shows "\<exists>s'. allocate_student it ''P1'' True sg m GroupAllocator = Inr (Some 17, s')"
proof -
  have av: "available GroupAllocator ''P1'' True = {17, 18, 19, 20, 21, 22, 23}"
    by (auto simp: available_iff eligible_def p1_groups_def stage_forbidden_def occupancy_init
        capacities_eq)
  then have ne: "available GroupAllocator ''P1'' True \<noteq> {}" by simp
  from allocate_student_some[OF assms ne, of sg m] obtain b s1 where
    a: "allocate_student it ''P1'' True sg m GroupAllocator = Inr (Some b, record_allocation b sg m s1)"
    and mem: "b \<in> available GroupAllocator ''P1'' True"
    and le: "\<forall>x\<in>available GroupAllocator ''P1'' True.
        score_of GroupAllocator sg m b \<le> score_of GroupAllocator sg m x" by blast
  from le av have "score_of GroupAllocator sg m b \<le> score_of GroupAllocator sg m 17" by simp
  then have "b \<le> 17" by (simp add: score_of_init)
  with mem av have "b = 17" by auto
  with a show ?thesis by blast
qed

text \<open>An instance of C7 on concrete data.\<close>

theorem fresh_p1_stage_scenario_witness:
  "set_order sorted_list_of_set \<and>
   (\<exists>s'. allocate_student sorted_list_of_set ''P1'' True ''G7'' ''infirmier'' GroupAllocator
            = Inr (Some 17, s')) \<and>
   map_sum id fst (allocate_student sorted_list_of_set ''P1'' True ''G7'' ''infirmier''
      GroupAllocator) = Inr (Some 17)"
proof -
  have "map_sum id fst (allocate_student sorted_list_of_set ''P1'' True ''G7'' ''infirmier''
      GroupAllocator) = Inr (Some 17)"
    by code_simp
  with fresh_p1_stage_scenario[OF set_order_sorted, of "''G7''" "''infirmier''"] set_order_sorted
  show ?thesis by blast
qed

text \<open>
  \<^bold>\<open>C8\<close> (scenario). From a state where the groups 1 to 16 (those of period P2) are
  empty, two consecutive calls for students of period P2, stage flag false, with the same
  source group and the same profession, both return a group, and the second group differs
  from the first.
\<close>

theorem consecutive_p2_scenario:
  assumes "set_order it" and "\<forall>g. 1 \<le> g \<and> g \<le> 16 \<longrightarrow> occupancy s g = 0"
  shows "\<exists>g1 g2 s2.
           allocate_students it [(''P2'', False, sg, m), (''P2'', False, sg, m)] s =
             Inr ([Some g1, Some g2], s2) \<and> g1 \<noteq> g2"
proof -
  have zero: "occupancy s g = 0" if "g \<in> p2_groups" for g
    using assms(2) p2_groups_range[OF that] by simp
  have ne: "p2_groups \<noteq> {}" by (simp add: p2_groups_def)
  have av: "available s ''P2'' False = p2_groups"
    by (rule available_p2) (simp add: zero)
  from allocate_student_some[OF assms(1), of s "''P2''" False sg m] av ne obtain g1 s1 where
    a1: "allocate_student it ''P2'' False sg m s = Inr (Some g1, s1)"
    and m1: "g1 \<in> p2_groups" by auto
  have occ1: "occupancy s1 h = (if h = g1 then 1 else occupancy s h)" for h
    using allocate_student_reads(1)[OF assms(1) a1, of h] zero[OF m1] by simp
  have av1: "available s1 ''P2'' False = p2_groups"
    by (rule available_p2) (simp add: occ1 zero)
  from allocate_student_some[OF assms(1), of s1 "''P2''" False sg m] av1 ne obtain g2 s2 where
    a2: "allocate_student it ''P2'' False sg m s1 = Inr (Some g2, s2)"
    and m2: "g2 \<in> p2_groups"
    and le: "\<forall>x\<in>p2_groups. score_of s1 sg m g2 \<le> score_of s1 sg m x" by auto
  have "\<exists>h. h \<in> p2_groups \<and> h \<noteq> g1"
  proof (cases "g1 = 1")
    case True
    have "(2::int) \<in> p2_groups" by (simp add: p2_groups_def)
    with True show ?thesis by (intro exI[of _ 2]) simp
  next
    case False
    have "(1::int) \<in> p2_groups" by (simp add: p2_groups_def)
    with False show ?thesis by (intro exI[of _ 1]) simp
  qed
  then obtain h where h: "h \<in> p2_groups" "h \<noteq> g1" by blast
  with le have "score_of s1 sg m g2 \<le> score_of s1 sg m h" by blast
  then have "occupancy s1 g2 \<le> occupancy s1 h"
    by (auto simp: score_of_eq less_eq_prod_def)
  with h zero[OF h(1)] have "occupancy s1 g2 \<le> 0" by (simp add: occ1)
  then have "g2 \<noteq> g1" by (auto simp: occ1)
  with a1 a2 show ?thesis by simp
qed

text \<open>An instance of C8 on concrete data.\<close>

theorem consecutive_p2_scenario_witness:
  "set_order sorted_list_of_set \<and>
   list_all (\<lambda>g. occupancy GroupAllocator g = 0) [1..16] \<and>
   (\<exists>s2. allocate_students sorted_list_of_set
      [(''P2'', False, ''G1'', ''medecin''), (''P2'', False, ''G1'', ''medecin'')] GroupAllocator
      = Inr ([Some 1, Some 2], s2))"
proof -
  let ?xs = "[(''P2'', False, ''G1'', ''medecin''), (''P2'', False, ''G1'', ''medecin'')]"
  have z: "\<forall>g. 1 \<le> g \<and> g \<le> 16 \<longrightarrow> occupancy GroupAllocator g = 0"
    by (simp add: occupancy_init)
  from consecutive_p2_scenario[OF set_order_sorted z, of "''G1''" "''medecin''"]
  obtain g1 g2 s2 where
    a: "allocate_students sorted_list_of_set ?xs GroupAllocator = Inr ([Some g1, Some g2], s2)"
    and "g1 \<noteq> g2" by blast
  have "map_sum id fst (allocate_students sorted_list_of_set ?xs GroupAllocator)
      = Inr [Some 1, Some 2]"
    by code_simp
  with a have "g1 = 1" "g2 = 2" by simp_all
  with a have "\<exists>s2. allocate_students sorted_list_of_set ?xs GroupAllocator
      = Inr ([Some 1, Some 2], s2)" by blast
  moreover have "list_all (\<lambda>g. occupancy GroupAllocator g = 0) [1..16]"
    by (simp add: list_all_iff occupancy_init)
  ultimately show ?thesis using set_order_sorted by blast
qed

text \<open>
  \<^bold>\<open>C9\<close> (nothing changes on failure). When \<open>allocate_student\<close> returns \<open>None\<close> the
  allocator is exactly the one before the call: the three dictionaries have the same keys
  and the same values (the reads of the call stored no default). When it returns a group
  \<open>g\<close>, the occupancy of \<open>g\<close>, the count of the student's source group in \<open>g\<close> and the count
  of the student's profession in \<open>g\<close> are one more than before, and every other value read
  from the three dictionaries is what it was.
\<close>

theorem allocation_atomic:
  assumes "set_order it"
  shows "(allocate_student it p st sg m s = Inr (None, s') \<longrightarrow> s' = s) \<and>
         (allocate_student it p st sg m s = Inr (Some g, s') \<longrightarrow>
            (\<forall>h. occupancy s' h = (if h = g then occupancy s g + 1 else occupancy s h)) \<and>
            (\<forall>h l. source_groupe_count s' h l =
               (if h = g \<and> l = sg then source_groupe_count s g sg + 1
                else source_groupe_count s h l)) \<and>
            (\<forall>h l. metier_count s' h l =
               (if h = g \<and> l = m then metier_count s g m + 1 else metier_count s h l)))"
proof (intro conjI impI allI)
  assume "allocate_student it p st sg m s = Inr (None, s')"
  then show "s' = s" using allocate_student_NoneD[OF assms] by blast
next
  fix h assume a: "allocate_student it p st sg m s = Inr (Some g, s')"
  show "occupancy s' h = (if h = g then occupancy s g + 1 else occupancy s h)"
    by (rule allocate_student_reads(1)[OF assms a])
next
  fix h l assume a: "allocate_student it p st sg m s = Inr (Some g, s')"
  show "source_groupe_count s' h l =
      (if h = g \<and> l = sg then source_groupe_count s g sg + 1 else source_groupe_count s h l)"
    by (rule allocate_student_reads(2)[OF assms a])
next
  fix h l assume a: "allocate_student it p st sg m s = Inr (Some g, s')"
  show "metier_count s' h l =
      (if h = g \<and> l = m then metier_count s g m + 1 else metier_count s h l)"
    by (rule allocate_student_reads(3)[OF assms a])
qed

text \<open>An instance of C9 on concrete data.\<close>

theorem allocation_atomic_witness:
  "(let full = \<lparr>group_counts = map_of [(17, 7), (18, 7), (19, 7), (20, 7), (21, 7), (22, 7), (23, 6)],
                group_source_groupes = Map.empty, group_metiers = Map.empty\<rparr>
    in set_order sorted_list_of_set \<and>
       allocate_student sorted_list_of_set ''P1'' True ''G1'' ''medecin'' full = Inr (None, full) \<and>
       (\<exists>s'. allocate_student sorted_list_of_set ''P1'' True ''G1'' ''medecin'' GroupAllocator
                = Inr (Some 17, s') \<and>
              occupancy s' 17 = 1 \<and> occupancy s' 18 = 0 \<and>
              source_groupe_count s' 17 ''G1'' = 1 \<and> source_groupe_count s' 17 ''G2'' = 0 \<and>
              metier_count s' 17 ''medecin'' = 1 \<and> metier_count s' 18 ''medecin'' = 0))"
proof -
  let ?full = "\<lparr>group_counts = map_of [(17, 7), (18, 7), (19, 7), (20, 7), (21, 7), (22, 7), (23, 6)],
                group_source_groupes = Map.empty, group_metiers = Map.empty\<rparr>"
  note th = allocation_atomic[OF set_order_sorted, of "''P1''" True "''G1''" "''medecin''"]
  have "map_sum id fst (allocate_student sorted_list_of_set ''P1'' True ''G1'' ''medecin'' ?full)
      = Inr None"
    by code_simp
  from eval_Inr[OF this] obtain s1 where
    n: "allocate_student sorted_list_of_set ''P1'' True ''G1'' ''medecin'' ?full = Inr (None, s1)"
    by (rule exE)
  from th[of ?full s1] n have "s1 = ?full" by (rule conjunct1[THEN mp])
  with n have 1: "allocate_student sorted_list_of_set ''P1'' True ''G1'' ''medecin'' ?full
      = Inr (None, ?full)" by simp
  have "map_sum id fst (allocate_student sorted_list_of_set ''P1'' True ''G1'' ''medecin''
      GroupAllocator) = Inr (Some 17)"
    by code_simp
  from eval_Inr[OF this] obtain s' where
    a: "allocate_student sorted_list_of_set ''P1'' True ''G1'' ''medecin'' GroupAllocator
          = Inr (Some 17, s')"
    by (rule exE)
  from th[of GroupAllocator s' 17] a
  have r: "(\<forall>h. occupancy s' h = (if h = 17 then occupancy GroupAllocator 17 + 1 else occupancy GroupAllocator h)) \<and>
            (\<forall>h l. source_groupe_count s' h l =
               (if h = 17 \<and> l = ''G1'' then source_groupe_count GroupAllocator 17 ''G1'' + 1
                else source_groupe_count GroupAllocator h l)) \<and>
            (\<forall>h l. metier_count s' h l =
               (if h = 17 \<and> l = ''medecin'' then metier_count GroupAllocator 17 ''medecin'' + 1
                else metier_count GroupAllocator h l))"
    by (rule conjunct2[THEN mp])
  have z: "occupancy GroupAllocator h = 0" "source_groupe_count GroupAllocator h l = 0"
    "metier_count GroupAllocator h l = 0" for h l
    by (simp_all add: occupancy_eq source_groupe_count_eq metier_count_eq GroupAllocator_def)
  from r have "occupancy s' 17 = 1 \<and> occupancy s' 18 = 0 \<and>
              source_groupe_count s' 17 ''G1'' = 1 \<and> source_groupe_count s' 17 ''G2'' = 0 \<and>
              metier_count s' 17 ''medecin'' = 1 \<and> metier_count s' 18 ''medecin'' = 0"
    by (simp add: z)
  with a have "\<exists>s'. allocate_student sorted_list_of_set ''P1'' True ''G1'' ''medecin'' GroupAllocator
                = Inr (Some 17, s') \<and>
              occupancy s' 17 = 1 \<and> occupancy s' 18 = 0 \<and>
              source_groupe_count s' 17 ''G1'' = 1 \<and> source_groupe_count s' 17 ''G2'' = 0 \<and>
              metier_count s' 17 ''medecin'' = 1 \<and> metier_count s' 18 ''medecin'' = 0"
    by (intro exI[of _ s']) simp
  with 1 set_order_sorted show ?thesis unfolding Let_def by (intro conjI)
qed

text \<open>
  \<^bold>\<open>C10\<close> (the destinations of the input do not matter). Two lists of rows that differ
  only in the field \<open>nouveau_groupe\<close> give the same result of the loop of \<open>main\<close>: the same
  rows, destinations included, and the same allocator. And the field is overwritten in every
  row by what the allocation chose: the loop body stores the decimal string of the group
  that \<open>allocate_student\<close> returned for the row, or the empty string when it returned \<open>None\<close>,
  and leaves the allocator of that call; the loop returns every row so overwritten, with the
  results of the same sequence of calls of \<open>allocate_student\<close>, and nothing else changed.
\<close>

theorem destination_noninterference:
  "(map (\<lambda>r. r\<lparr>nouveau_groupe := ''''\<rparr>) rows1 = map (\<lambda>r. r\<lparr>nouveau_groupe := ''''\<rparr>) rows2
      \<longrightarrow> allocate_rows it rows1 s = allocate_rows it rows2 s) \<and>
   (set_order it \<longrightarrow>
      (\<exists>res s1.
         allocate_student it (periode r) (stage r = ''oui'') (groupe r) (metier r) s = Inr (res, s1) \<and>
         allocate_row it r s =
           Inr (r\<lparr>nouveau_groupe := (case res of None \<Rightarrow> '''' | Some g \<Rightarrow> str g)\<rparr>, s1)) \<and>
      (\<exists>ress s'.
         allocate_students it
           (map (\<lambda>r. (periode r, stage r = ''oui'', groupe r, metier r)) rows1) s = Inr (ress, s') \<and>
         length ress = length rows1 \<and>
         allocate_rows it rows1 s =
           Inr (map2 (\<lambda>r res. r\<lparr>nouveau_groupe := (case res of None \<Rightarrow> '''' | Some g \<Rightarrow> str g)\<rparr>)
                  rows1 ress, s')))"
proof (intro conjI impI)
  assume "map (\<lambda>r. r\<lparr>nouveau_groupe := ''''\<rparr>) rows1 = map (\<lambda>r. r\<lparr>nouveau_groupe := ''''\<rparr>) rows2"
  then show "allocate_rows it rows1 s = allocate_rows it rows2 s"
    by (rule allocate_rows_destination)
next
  assume "set_order it"
  then show "\<exists>res s1.
         allocate_student it (periode r) (stage r = ''oui'') (groupe r) (metier r) s = Inr (res, s1) \<and>
         allocate_row it r s =
           Inr (r\<lparr>nouveau_groupe := (case res of None \<Rightarrow> '''' | Some g \<Rightarrow> str g)\<rparr>, s1)"
    by (rule allocate_row_total)
next
  assume "set_order it"
  then show "\<exists>ress s'.
         allocate_students it
           (map (\<lambda>r. (periode r, stage r = ''oui'', groupe r, metier r)) rows1) s = Inr (ress, s') \<and>
         length ress = length rows1 \<and>
         allocate_rows it rows1 s =
           Inr (map2 (\<lambda>r res. r\<lparr>nouveau_groupe := (case res of None \<Rightarrow> '''' | Some g \<Rightarrow> str g)\<rparr>)
                  rows1 ress, s')"
    by (rule allocate_rows_students)
qed

text \<open>An instance of C10 on concrete data.\<close>

theorem destination_noninterference_witness:
  "allocate_rows sorted_list_of_set
     [\<lparr>line_num = ''1'', metier = ''medecin'', choix_master = ''A'', groupe = ''G1'',
       stage = ''oui'', periode = ''P1'', nouveau_groupe = ''5''\<rparr>] GroupAllocator =
   allocate_rows sorted_list_of_set
     [\<lparr>line_num = ''1'', metier = ''medecin'', choix_master = ''A'', groupe = ''G1'',
       stage = ''oui'', periode = ''P1'', nouveau_groupe = ''''\<rparr>] GroupAllocator \<and>
   set_order sorted_list_of_set \<and>
   (\<exists>s'. allocate_students sorted_list_of_set [(''P1'', True, ''G1'', ''medecin'')] GroupAllocator
            = Inr ([Some 17], s') \<and>
          allocate_rows sorted_list_of_set
            [\<lparr>line_num = ''1'', metier = ''medecin'', choix_master = ''A'', groupe = ''G1'',
              stage = ''oui'', periode = ''P1'', nouveau_groupe = ''5''\<rparr>] GroupAllocator
            = Inr ([\<lparr>line_num = ''1'', metier = ''medecin'', choix_master = ''A'', groupe = ''G1'',
                     stage = ''oui'', periode = ''P1'', nouveau_groupe = ''17''\<rparr>], s'))"
proof -
  let ?ra = "\<lparr>line_num = ''1'', metier = ''medecin'', choix_master = ''A'', groupe = ''G1'',
       stage = ''oui'', periode = ''P1'', nouveau_groupe = ''5''\<rparr>"
  let ?rb = "\<lparr>line_num = ''1'', metier = ''medecin'', choix_master = ''A'', groupe = ''G1'',
       stage = ''oui'', periode = ''P1'', nouveau_groupe = ''''\<rparr>"
  note th = destination_noninterference[of "[?ra]" "[?rb]" sorted_list_of_set GroupAllocator ?ra]
  have 1: "allocate_rows sorted_list_of_set [?ra] GroupAllocator =
      allocate_rows sorted_list_of_set [?rb] GroupAllocator"
    by (rule th[THEN conjunct1, THEN mp]) simp
  from th[THEN conjunct2, THEN mp, OF set_order_sorted, THEN conjunct2]
  obtain ress s' where
    a: "allocate_students sorted_list_of_set
          (map (\<lambda>r. (periode r, stage r = ''oui'', groupe r, metier r)) [?ra]) GroupAllocator
        = Inr (ress, s')"
    and b: "allocate_rows sorted_list_of_set [?ra] GroupAllocator =
           Inr (map2 (\<lambda>r res. r\<lparr>nouveau_groupe := (case res of None \<Rightarrow> '''' | Some g \<Rightarrow> str g)\<rparr>)
                  [?ra] ress, s')"
    by blast
  have ev: "map_sum id fst (allocate_students sorted_list_of_set
      [(''P1'', True, ''G1'', ''medecin'')] GroupAllocator) = Inr [Some 17]"
    by code_simp
  from a have a': "allocate_students sorted_list_of_set
      [(''P1'', True, ''G1'', ''medecin'')] GroupAllocator = Inr (ress, s')" by simp
  with ev have r: "ress = [Some 17]" by simp
  have s17: "str 17 = ''17''" by code_simp
  from b r s17 have b': "allocate_rows sorted_list_of_set [?ra] GroupAllocator =
      Inr ([\<lparr>line_num = ''1'', metier = ''medecin'', choix_master = ''A'', groupe = ''G1'',
                     stage = ''oui'', periode = ''P1'', nouveau_groupe = ''17''\<rparr>], s')"
    by simp
  from a' r b' have "\<exists>s'. allocate_students sorted_list_of_set
      [(''P1'', True, ''G1'', ''medecin'')] GroupAllocator = Inr ([Some 17], s') \<and>
          allocate_rows sorted_list_of_set [?ra] GroupAllocator
            = Inr ([\<lparr>line_num = ''1'', metier = ''medecin'', choix_master = ''A'', groupe = ''G1'',
                     stage = ''oui'', periode = ''P1'', nouveau_groupe = ''17''\<rparr>], s')"
    by (intro exI[of _ s']) simp
  with 1 set_order_sorted show ?thesis by (intro conjI)
qed

end
